theory Spec2Isabelle
  imports Main "HOL-Library.Word"
begin

section \<open>Errors, rows and metadata\<close>

text \<open>
  Go's \<^verbatim>\<open>error\<close> values. \<^verbatim>\<open>io.EOF\<close> and \<^verbatim>\<open>driver.EOQ\<close> are the two sentinel values
  that \<^verbatim>\<open>rowsIterator.Next\<close> compares against; \<^verbatim>\<open>errors.New(msg)\<close> is \<open>ErrorString msg\<close>;
  \<^verbatim>\<open>&Error{Status: s, Message: m}\<close> and \<^verbatim>\<open>&Error{Status: s, Err: errors.New(m)}\<close> are
  \<open>KivikError s m\<close>. A nil error is \<open>None\<close> of \<open>error option\<close>.
\<close>

datatype error = EOF | EOQ | ErrorString string | KivikError nat string

text \<open>
  \<^verbatim>\<open>driver.Row\<close> as resultset.go reads it: \<^verbatim>\<open>Key\<close> is raw JSON, the readers
  \<^verbatim>\<open>Value\<close> and \<^verbatim>\<open>Doc\<close> may be nil (\<open>None\<close>) or hold the JSON text they deliver,
  \<^verbatim>\<open>Error\<close> may be nil.
\<close>

record Row =
  ID :: string
  Key :: string
  Value :: "string option"
  Doc :: "string option"
  Error :: "error option"

record ResultMetadata =
  Offset :: int
  TotalRows :: int
  UpdateSeq :: string
  Warning :: string
  Bookmark :: string

section \<open>The iterator core\<close>

text \<open>
  The \<^verbatim>\<open>iterator\<close> interface that a feed implements: \<^verbatim>\<open>Next(slot) error\<close> and
  \<^verbatim>\<open>Close() error\<close>. A feed is a value of type \<open>'f\<close>; \<^verbatim>\<open>Next\<close> receives the slot's
  content and returns the error, the slot's new content and the feed's new state.
\<close>

record ('f, 'v) iterator =
  feedNext :: "'f \<Rightarrow> 'v \<Rightarrow> error option \<times> 'v \<times> 'f"
  feedClose :: "'f \<Rightarrow> error option \<times> 'f"

datatype state = stateInit | stateRowReady | stateEOQ | stateResultSetReady | stateClosed

text \<open>
  Modelled from the spec: the type \<^verbatim>\<open>iter\<close> and its methods (\<^verbatim>\<open>newIterator\<close>,
  \<^verbatim>\<open>Next\<close>, \<^verbatim>\<open>Close\<close>, \<^verbatim>\<open>Err\<close>, \<^verbatim>\<open>makeReady\<close>) are used by resultset.go and
  by the tests but their file is not among the sources. The fields are those of the
  spec's Iterator Core; \<open>onCloseCalls\<close> counts the invocations of the close callback.
  The cancellation scope is left out: every fetch completes.
\<close>

record ('f, 'v) iter =
  feed :: 'f
  state :: state
  curVal :: 'v
  lasterr :: "error option"
  onCloseCalls :: nat

definition newIterator :: "'f \<Rightarrow> 'v \<Rightarrow> ('f, 'v) iter" where
  "newIterator f zero =
     \<lparr>feed = f, state = stateInit, curVal = zero, lasterr = None, onCloseCalls = 0\<rparr>"

text \<open>
  Modelled from the spec: \<^verbatim>\<open>close()\<close> is idempotent; from any other state it moves to
  \<open>stateClosed\<close>, closes the feed, invokes the close callback and hands back the feed's
  error. It leaves \<open>lasterr\<close> as it is (the interface comment in resultset.go: Close
  does not affect the result of Err).
\<close>

definition iter_Close :: "('f, 'v) iterator \<Rightarrow> ('f, 'v) iter \<Rightarrow> error option \<times> ('f, 'v) iter" where
  "iter_Close ops it =
     (if state it = stateClosed then (None, it)
      else (case feedClose ops (feed it) of
              (e, f') \<Rightarrow> (e, it\<lparr>feed := f', state := stateClosed,
                                 onCloseCalls := Suc (onCloseCalls it)\<rparr>)))"

text \<open>
  Modelled from the spec: \<^verbatim>\<open>advance()\<close>. A closed iterator or one with a recorded error
  returns false without touching the feed. The spec gives no fetch from
  \<open>stateEOQ\<close> (the caller must begin the next result set first), so the model returns
  false there. Otherwise the feed's fetch decides: success makes the row ready,
  end-of-query is remembered, end-of-data closes, any other error is recorded and closes.
\<close>

definition iter_Next :: "('f, 'v) iterator \<Rightarrow> ('f, 'v) iter \<Rightarrow> bool \<times> ('f, 'v) iter" where
  "iter_Next ops it =
     (if state it = stateClosed \<or> lasterr it \<noteq> None then (False, it)
      else if state it = stateEOQ then (False, it)
      else (case feedNext ops (feed it) (curVal it) of
              (None, v, f') \<Rightarrow> (True, it\<lparr>feed := f', curVal := v, state := stateRowReady\<rparr>)
            | (Some e, v, f') \<Rightarrow>
                (if e = EOQ then (False, it\<lparr>feed := f', state := stateEOQ\<rparr>)
                 else if e = EOF then (False, snd (iter_Close ops (it\<lparr>feed := f'\<rparr>)))
                 else (False, snd (iter_Close ops (it\<lparr>feed := f', lasterr := Some e\<rparr>))))))"

definition iter_Err :: "('f, 'v) iter \<Rightarrow> error option" where
  "iter_Err it = lasterr it"

text \<open>\<open>nexts ops k it\<close> calls \<^verbatim>\<open>Next\<close> \<open>k\<close> times in a row and collects the results.\<close>

fun nexts :: "('f, 'v) iterator \<Rightarrow> nat \<Rightarrow> ('f, 'v) iter \<Rightarrow> bool list \<times> ('f, 'v) iter" where
  "nexts ops 0 it = ([], it)"
| "nexts ops (Suc k) it =
     (case iter_Next ops it of
        (b, it') \<Rightarrow> (case nexts ops k it' of (bs, it'') \<Rightarrow> (b # bs, it'')))"

text \<open>
  A feed in state \<open>f\<close> with slot content \<open>v\<close> yields \<open>n\<close> successful items and then
  end-of-data.
\<close>

fun feed_yields :: "('f, 'v) iterator \<Rightarrow> 'f \<Rightarrow> 'v \<Rightarrow> nat \<Rightarrow> bool" where
  "feed_yields ops f v 0 = (fst (feedNext ops f v) = Some EOF)"
| "feed_yields ops f v (Suc n) =
     (case feedNext ops f v of
        (None, v', f') \<Rightarrow> feed_yields ops f' v' n
      | (Some e, v', f') \<Rightarrow> False)"

subsection \<open>The test feed of iterator\_test.go\<close>

text \<open>
  \<^verbatim>\<open>TestFeed\<close>: \<^verbatim>\<open>max\<close> and \<^verbatim>\<open>i\<close> are \<^verbatim>\<open>int64\<close>, so \<^verbatim>\<open>f.i++\<close> wraps and the
  comparison is signed. \<^verbatim>\<open>Next\<close> stores \<^verbatim>\<open>f.i\<close> in the slot before it decides.
\<close>

record TestFeed =
  tf_max :: "64 word"
  tf_i :: "64 word"
  tf_closeErr :: "error option"

definition TestFeed_Next :: "TestFeed \<Rightarrow> 64 word \<Rightarrow> error option \<times> 64 word \<times> TestFeed" where
  "TestFeed_Next f slot =
     (let f' = f\<lparr>tf_i := tf_i f + 1\<rparr>
      in if sint (tf_i f') > sint (tf_max f') then (Some EOF, tf_i f, f')
         else (None, tf_i f, f'))"

definition TestFeed_Close :: "TestFeed \<Rightarrow> error option \<times> TestFeed" where
  "TestFeed_Close f = (tf_closeErr f, f)"

definition TestFeed_ops :: "(TestFeed, 64 word) iterator" where
  "TestFeed_ops = \<lparr>feedNext = TestFeed_Next, feedClose = TestFeed_Close\<rparr>"

section \<open>Rows: the result set over a driver\<close>

text \<open>
  \<^verbatim>\<open>driver.Rows\<close> is an interface of the driver package. A driver is modelled by what
  its successive \<^verbatim>\<open>Next\<close> calls deliver (\<open>pending\<close>, then \<^verbatim>\<open>io.EOF\<close> for ever), the
  values its metadata methods report, and the result of its \<^verbatim>\<open>Close\<close>. The optional
  capabilities \<^verbatim>\<open>driver.RowsWarner\<close> and \<^verbatim>\<open>driver.Bookmarker\<close> are \<open>None\<close> when the
  driver does not implement them. \<open>rowsCloseCalls\<close> counts the calls of \<^verbatim>\<open>Close\<close>.
\<close>

datatype fetched = Fetched Row | Failed error

record driverRows =
  pending :: "fetched list"
  rowsOffset :: int
  rowsTotalRows :: int
  rowsUpdateSeq :: string
  rowsWarner :: "string option"
  rowsBookmarker :: "string option"
  rowsCloseErr :: "error option"
  rowsCloseCalls :: nat

definition driver_Next :: "driverRows \<Rightarrow> Row \<Rightarrow> error option \<times> Row \<times> driverRows" where
  "driver_Next d slot =
     (case pending d of
        [] \<Rightarrow> (Some EOF, slot, d)
      | Fetched row # rest \<Rightarrow> (None, row, d\<lparr>pending := rest\<rparr>)
      | Failed e # rest \<Rightarrow> (Some e, slot, d\<lparr>pending := rest\<rparr>))"

definition driver_Close :: "driverRows \<Rightarrow> error option \<times> driverRows" where
  "driver_Close d = (rowsCloseErr d, d\<lparr>rowsCloseCalls := Suc (rowsCloseCalls d)\<rparr>)"

text \<open>\<^verbatim>\<open>rowsIterator\<close> embeds the driver's rows and a pointer to the metadata.\<close>

record rowsIterator =
  Rows :: driverRows
  Metadata_ptr :: "ResultMetadata option"

definition rowsIterator_Next :: "rowsIterator \<Rightarrow> Row \<Rightarrow> error option \<times> Row \<times> rowsIterator" where
  "rowsIterator_Next r slot =
     (case driver_Next (Rows r) slot of
        (err, slot', d) \<Rightarrow>
          (if err = Some EOF \<or> err = Some EOQ then
             (let warning = (case rowsWarner d of Some w \<Rightarrow> w | None \<Rightarrow> []);
                  bookmark = (case rowsBookmarker d of Some b \<Rightarrow> b | None \<Rightarrow> [])
              in (err, slot',
                  r\<lparr>Rows := d,
                    Metadata_ptr := Some \<lparr>Offset = rowsOffset d, TotalRows = rowsTotalRows d,
                                          UpdateSeq = rowsUpdateSeq d, Warning = warning,
                                          Bookmark = bookmark\<rparr>\<rparr>))
           else (err, slot', r\<lparr>Rows := d\<rparr>)))"

definition rowsIterator_Close :: "rowsIterator \<Rightarrow> error option \<times> rowsIterator" where
  "rowsIterator_Close r = (case driver_Close (Rows r) of (e, d) \<Rightarrow> (e, r\<lparr>Rows := d\<rparr>))"

definition rowsIterator_ops :: "(rowsIterator, Row) iterator" where
  "rowsIterator_ops = \<lparr>feedNext = rowsIterator_Next, feedClose = rowsIterator_Close\<rparr>"

text \<open>
  \<^verbatim>\<open>rows\<close>: the embedded \<^verbatim>\<open>*iter\<close> and the local error \<^verbatim>\<open>err\<close>. The field
  \<^verbatim>\<open>rowsi\<close> is the driver that the iterator's feed already holds; resultset.go never
  reads it again. The model holds the iterator by value, so \<^verbatim>\<open>r.iter == nil\<close> does
  not arise (\<^verbatim>\<open>newRows\<close> always sets it).
\<close>

record rows =
  iter :: "(rowsIterator, Row) iter"
  err :: "error option"

definition zeroRow :: Row where
  "zeroRow = \<lparr>ID = [], Key = [], Value = None, Doc = None, Error = None\<rparr>"

definition newRows :: "driverRows \<Rightarrow> rows" where
  "newRows rowsi =
     \<lparr>iter = newIterator \<lparr>Rows = rowsi, Metadata_ptr = None\<rparr> zeroRow, err = None\<rparr>"

definition rows_Next :: "rows \<Rightarrow> bool \<times> rows" where
  "rows_Next r = (case iter_Next rowsIterator_ops (iter r) of (b, it) \<Rightarrow> (b, r\<lparr>iter := it\<rparr>))"

definition NextResultSet :: "rows \<Rightarrow> bool \<times> rows" where
  "NextResultSet r =
     (if lasterr (iter r) \<noteq> None then (False, r)
      else if state (iter r) = stateClosed then (False, r)
      else if state (iter r) = stateRowReady then
        (False, r\<lparr>iter := (iter r)\<lparr>lasterr :=
                   Some (ErrorString ''must call NextResultSet before Next'')\<rparr>\<rparr>)
      else (True, r\<lparr>iter := (iter r)\<lparr>state := stateResultSetReady\<rparr>\<rparr>))"

definition rows_Err :: "rows \<Rightarrow> error option" where
  "rows_Err r = (case err r of Some e \<Rightarrow> Some e | None \<Rightarrow> iter_Err (iter r))"

definition rows_Close :: "rows \<Rightarrow> error option \<times> rows" where
  "rows_Close r = (case iter_Close rowsIterator_ops (iter r) of (e, it) \<Rightarrow> (e, r\<lparr>iter := it\<rparr>))"

definition Metadata :: "rows \<Rightarrow> ResultMetadata option \<times> error option" where
  "Metadata r =
     (if state (iter r) \<noteq> stateEOQ \<and> state (iter r) \<noteq> stateClosed then
        (None, Some (KivikError 400
           ''Metadata must not be called until result set iteration is complete''))
      else (Metadata_ptr (feed (iter r)), None))"

text \<open>
  Modelled from the spec: \<^verbatim>\<open>makeReady\<close> is the spec's current-value access. In the
  initial state it performs one implicit advance and one implicit close; in any other
  state it only takes the read lock. The result carries the error of the implicit close.
\<close>

definition makeReady :: "('f, 'v) iterator \<Rightarrow> ('f, 'v) iter \<Rightarrow> error option \<times> ('f, 'v) iter" where
  "makeReady ops it =
     (if state it = stateInit then iter_Close ops (snd (iter_Next ops it))
      else (None, it))"

text \<open>
  The decoding of a row, as each scan method does it once it holds the current row.
  \<open>dec\<close> stands for \<^verbatim>\<open>json.NewDecoder(reader).Decode(dest)\<close> and for
  \<^verbatim>\<open>json.Unmarshal(key, dest)\<close>: from the JSON text and the destination's content it
  gives the destination's new content and the error.
\<close>

type_synonym 'v decoder = "string \<Rightarrow> 'v \<Rightarrow> 'v \<times> error option"

definition scanValueRow :: "'v decoder \<Rightarrow> Row \<Rightarrow> 'v \<Rightarrow> 'v \<times> error option" where
  "scanValueRow dec row dest =
     (case Error row of
        Some e \<Rightarrow> (dest, Some e)
      | None \<Rightarrow> (case Value row of Some p \<Rightarrow> dec p dest | None \<Rightarrow> (dest, None)))"

definition scanDocRow :: "'v decoder \<Rightarrow> Row \<Rightarrow> 'v \<Rightarrow> 'v \<times> error option" where
  "scanDocRow dec row dest =
     (case Error row of
        Some e \<Rightarrow> (dest, Some e)
      | None \<Rightarrow>
          (case Doc row of
             Some p \<Rightarrow> dec p dest
           | None \<Rightarrow> (dest, Some (KivikError 400
                ''kivik: doc is nil; does the query include docs?''))))"

definition scanKeyRow :: "'v decoder \<Rightarrow> Row \<Rightarrow> 'v \<Rightarrow> 'v \<times> error option" where
  "scanKeyRow dec row dest =
     (case Error row of Some e \<Rightarrow> (dest, Some e) | None \<Rightarrow> dec (Key row) dest)"

text \<open>
  The frame shared by \<^verbatim>\<open>ScanValue\<close>, \<^verbatim>\<open>ScanDoc\<close> and \<^verbatim>\<open>ScanKey\<close>: the local error
  is returned at once; otherwise \<^verbatim>\<open>makeReady(&err)\<close>, the row's decoding, and the
  deferred unlock. The source hands \<^verbatim>\<open>makeReady\<close> the address of the named result; the
  model stores the implicit close's error there when there is one.
\<close>

definition scanFrame ::
  "(Row \<Rightarrow> 'v \<Rightarrow> 'v \<times> error option) \<Rightarrow> rows \<Rightarrow> 'v \<Rightarrow> error option \<times> 'v \<times> rows" where
  "scanFrame body r dest =
     (case err r of
        Some e \<Rightarrow> (Some e, dest, r)
      | None \<Rightarrow>
          (case makeReady rowsIterator_ops (iter r) of
             (closeErr, it) \<Rightarrow>
               (case body (curVal it) dest of
                  (dest', e) \<Rightarrow>
                    ((case closeErr of Some ce \<Rightarrow> Some ce | None \<Rightarrow> e), dest',
                     r\<lparr>iter := it\<rparr>))))"

definition ScanValue :: "'v decoder \<Rightarrow> rows \<Rightarrow> 'v \<Rightarrow> error option \<times> 'v \<times> rows" where
  "ScanValue dec = scanFrame (scanValueRow dec)"

definition ScanDoc :: "'v decoder \<Rightarrow> rows \<Rightarrow> 'v \<Rightarrow> error option \<times> 'v \<times> rows" where
  "ScanDoc dec = scanFrame (scanDocRow dec)"

definition ScanKey :: "'v decoder \<Rightarrow> rows \<Rightarrow> 'v \<Rightarrow> error option \<times> 'v \<times> rows" where
  "ScanKey dec = scanFrame (scanKeyRow dec)"

section \<open>The ResultSet interface and the bulk scan\<close>

text \<open>
  The two implementations of \<^verbatim>\<open>ResultSet\<close> in resultset.go: \<^verbatim>\<open>rows\<close> and the errored
  result set \<^verbatim>\<open>errRS\<close>, which holds only its error.
\<close>

datatype ResultSet = RowsRS rows | ErrRS "error option"

fun ResultSet_Next :: "ResultSet \<Rightarrow> bool \<times> ResultSet" where
  "ResultSet_Next (RowsRS r) = (case rows_Next r of (b, r') \<Rightarrow> (b, RowsRS r'))"
| "ResultSet_Next (ErrRS e) = (False, ErrRS e)"

fun ResultSet_NextResultSet :: "ResultSet \<Rightarrow> bool \<times> ResultSet" where
  "ResultSet_NextResultSet (RowsRS r) = (case NextResultSet r of (b, r') \<Rightarrow> (b, RowsRS r'))"
| "ResultSet_NextResultSet (ErrRS e) = (False, ErrRS e)"

fun ResultSet_Err :: "ResultSet \<Rightarrow> error option" where
  "ResultSet_Err (RowsRS r) = rows_Err r"
| "ResultSet_Err (ErrRS e) = e"

fun ResultSet_Close :: "ResultSet \<Rightarrow> error option \<times> ResultSet" where
  "ResultSet_Close (RowsRS r) = (case rows_Close r of (e, r') \<Rightarrow> (e, RowsRS r'))"
| "ResultSet_Close (ErrRS e) = (e, ErrRS e)"

fun ResultSet_Metadata :: "ResultSet \<Rightarrow> ResultMetadata option \<times> error option" where
  "ResultSet_Metadata (RowsRS r) = Metadata r"
| "ResultSet_Metadata (ErrRS e) = (None, e)"

fun ResultSet_ScanValue :: "'v decoder \<Rightarrow> ResultSet \<Rightarrow> 'v \<Rightarrow> error option \<times> 'v \<times> ResultSet" where
  "ResultSet_ScanValue dec (RowsRS r) dest =
     (case ScanValue dec r dest of (e, d, r') \<Rightarrow> (e, d, RowsRS r'))"
| "ResultSet_ScanValue dec (ErrRS e) dest = (e, dest, ErrRS e)"

fun ResultSet_ScanDoc :: "'v decoder \<Rightarrow> ResultSet \<Rightarrow> 'v \<Rightarrow> error option \<times> 'v \<times> ResultSet" where
  "ResultSet_ScanDoc dec (RowsRS r) dest =
     (case ScanDoc dec r dest of (e, d, r') \<Rightarrow> (e, d, RowsRS r'))"
| "ResultSet_ScanDoc dec (ErrRS e) dest = (e, dest, ErrRS e)"

fun ResultSet_ScanKey :: "'v decoder \<Rightarrow> ResultSet \<Rightarrow> 'v \<Rightarrow> error option \<times> 'v \<times> ResultSet" where
  "ResultSet_ScanKey dec (RowsRS r) dest =
     (case ScanKey dec r dest of (e, d, r') \<Rightarrow> (e, d, RowsRS r'))"
| "ResultSet_ScanKey dec (ErrRS e) dest = (e, dest, ErrRS e)"

text \<open>
  The \<^verbatim>\<open>dest\<close> argument of \<^verbatim>\<open>scanAll\<close> as reflection sees it: not a pointer, a nil
  pointer, a pointer to an array or to a slice (with the elements), or a pointer to
  anything else.
\<close>

datatype 'v dest = NotPtr | NilPtr | PtrArray "'v list" | PtrSlice "'v list" | PtrOther

text \<open>
  The \<^verbatim>\<open>scan\<close> argument: \<^verbatim>\<open>ScanAllDocs\<close> passes \<^verbatim>\<open>r.ScanDoc\<close> and
  \<^verbatim>\<open>ScanAllValues\<close> passes \<^verbatim>\<open>r.ScanValue\<close>, both bound to the same result set.
\<close>

datatype scanFn = ScanDocFn | ScanValueFn

fun scanWith :: "'v decoder \<Rightarrow> scanFn \<Rightarrow> ResultSet \<Rightarrow> 'v \<Rightarrow> error option \<times> 'v \<times> ResultSet" where
  "scanWith dec ScanDocFn r v = ResultSet_ScanDoc dec r v"
| "scanWith dec ScanValueFn r v = ResultSet_ScanValue dec r v"

text \<open>The rows that the driver behind a result set has not delivered yet.\<close>

fun remaining :: "ResultSet \<Rightarrow> nat" where
  "remaining (RowsRS r) = length (pending (Rows (feed (iter r))))"
| "remaining (ErrRS e) = 0"

text \<open>
  The loop of \<^verbatim>\<open>scanAll\<close>: \<^verbatim>\<open>for i := 0; r.Next(); i++\<close>. \<open>limit\<close> is the array's
  length, or 0 for a slice; \<open>direct\<close> holds the elements of the array or slice; \<open>e\<close> is
  the named result \<^verbatim>\<open>err\<close>, which every pass assigns from \<^verbatim>\<open>scan\<close>. \<open>zero\<close> is the
  fresh element \<^verbatim>\<open>reflect.New(base)\<close> points at. Once the array is full the index is
  never out of range, since the pass returns before the write.
\<close>

function scanAll_loop ::
  "'v decoder \<Rightarrow> scanFn \<Rightarrow> 'v \<Rightarrow> nat \<Rightarrow> nat \<Rightarrow> error option \<Rightarrow> ResultSet \<Rightarrow> 'v list
   \<Rightarrow> error option \<times> 'v list \<times> ResultSet" where
  "scanAll_loop dec fn zero limit i e r direct =
     (case ResultSet_Next r of
        (False, r1) \<Rightarrow> (e, direct, r1)
      | (True, r1) \<Rightarrow>
          (if limit > 0 \<and> i \<ge> limit then (e, direct, r1)
           else (case scanWith dec fn r1 zero of
                   (e', v, r2) \<Rightarrow>
                     scanAll_loop dec fn zero limit (Suc i) e' r2
                       (if limit > 0 then direct[i := v] else direct @ [v]))))"
  by pat_completeness auto
termination
proof (relation "measure (\<lambda>(dec, fn, zero, limit, i, e, r, direct). remaining r)", goal_cases)
  case 1
  show ?case by simp
next
  case (2 dec fn zero limit i e r direct b r1 e' y v r2)
  from 2 have nx: "ResultSet_Next r = (True, r1)" by simp
  from 2 have sc: "scanWith dec fn r1 zero = (e', v, r2)" by simp
  have dn: "\<And>d s b s' d'. driver_Next d s = (b, s', d') \<Longrightarrow> length (pending d') \<le> length (pending d)"
    by (auto simp: driver_Next_def split: list.splits fetched.splits)
  have dn_ok: "\<And>d s s' d'. driver_Next d s = (None, s', d') \<Longrightarrow> length (pending d') < length (pending d)"
    by (auto simp: driver_Next_def split: list.splits fetched.splits)
  have rn: "\<And>f s b s' f'. rowsIterator_Next f s = (b, s', f') \<Longrightarrow>
              length (pending (Rows f')) \<le> length (pending (Rows f))"
    by (auto simp: rowsIterator_Next_def Let_def split: prod.splits if_splits dest: dn)
  have rn_ok: "\<And>f s s' f'. rowsIterator_Next f s = (None, s', f') \<Longrightarrow>
              length (pending (Rows f')) < length (pending (Rows f))"
    by (auto simp: rowsIterator_Next_def Let_def split: prod.splits if_splits dest: dn_ok)
  have cl: "\<And>it c it'. iter_Close rowsIterator_ops it = (c, it') \<Longrightarrow>
              length (pending (Rows (feed it'))) = length (pending (Rows (feed it)))"
    by (auto simp: iter_Close_def rowsIterator_ops_def rowsIterator_Close_def driver_Close_def
             split: if_splits prod.splits)
  have nxt: "\<And>it b it'. iter_Next rowsIterator_ops it = (b, it') \<Longrightarrow>
              length (pending (Rows (feed it'))) \<le> length (pending (Rows (feed it)))"
    by (auto simp: iter_Next_def iter_Close_def rowsIterator_ops_def rowsIterator_Close_def
                   driver_Close_def
             split: if_splits prod.splits option.splits dest!: rn)
  have nxt_ok: "\<And>it it'. iter_Next rowsIterator_ops it = (True, it') \<Longrightarrow>
              length (pending (Rows (feed it'))) < length (pending (Rows (feed it)))"
    by (auto simp: iter_Next_def rowsIterator_ops_def
             split: if_splits prod.splits option.splits dest!: rn_ok)
  have mr: "\<And>it c it'. makeReady rowsIterator_ops it = (c, it') \<Longrightarrow>
              length (pending (Rows (feed it'))) \<le> length (pending (Rows (feed it)))"
  proof -
    fix it :: "(rowsIterator, Row) iter" and c it'
    assume a: "makeReady rowsIterator_ops it = (c, it')"
    show "length (pending (Rows (feed it'))) \<le> length (pending (Rows (feed it)))"
    proof (cases "state it = stateInit")
      case True
      obtain b it1 where n: "iter_Next rowsIterator_ops it = (b, it1)"
        by (cases "iter_Next rowsIterator_ops it") blast
      with a True have "iter_Close rowsIterator_ops it1 = (c, it')"
        by (simp add: makeReady_def)
      from cl[OF this] nxt[OF n] show ?thesis by simp
    next
      case False
      with a show ?thesis by (simp add: makeReady_def)
    qed
  qed
  have fr: "\<And>body rw (d::'v) e' d' rw'. scanFrame body rw d = (e', d', rw') \<Longrightarrow>
              remaining (RowsRS rw') \<le> remaining (RowsRS rw)"
    by (auto simp: scanFrame_def split: option.splits prod.splits dest!: mr)
  have sw: "remaining r2 \<le> remaining r1"
  proof (cases r1)
    case (RowsRS rw)
    then show ?thesis
      using sc fr by (cases fn) (auto simp: ScanDoc_def ScanValue_def split: prod.splits)
  next
    case (ErrRS x2)
    then show ?thesis using sc by (cases fn) auto
  qed
  have "remaining r1 < remaining r"
  proof (cases r)
    case (RowsRS rw)
    then show ?thesis
      using nx nxt_ok by (auto simp: rows_Next_def split: prod.splits)
  next
    case (ErrRS x2)
    then show ?thesis using nx by auto
  qed
  with sw show ?case
    by simp
qed

text \<open>
  \<^verbatim>\<open>scanAll\<close>. Every \<^verbatim>\<open>return\<close> of the body sets the named result: the early ones to
  their error, the two \<^verbatim>\<open>return nil\<close> of and after the loop to nil whatever the loop
  assigned. The deferred function then closes the result set and puts the close's error
  in the result if the result is nil.
\<close>

definition scanAll ::
  "'v decoder \<Rightarrow> scanFn \<Rightarrow> 'v \<Rightarrow> ResultSet \<Rightarrow> 'v dest \<Rightarrow> error option \<times> 'v dest \<times> ResultSet" where
  "scanAll dec fn zero r dest =
     (case
        (case ResultSet_Err r of
           Some e \<Rightarrow> (Some e, dest, r)
         | None \<Rightarrow>
             (case dest of
                NotPtr \<Rightarrow> (Some (ErrorString ''must pass a pointer to ScanAllDocs''), dest, r)
              | NilPtr \<Rightarrow> (Some (ErrorString ''nil pointer passed to ScanAllDocs''), dest, r)
              | PtrArray xs \<Rightarrow>
                  (if length xs = 0 then
                     (Some (ErrorString ''0-length array passed to ScanAllDocs''), dest, r)
                   else (case scanAll_loop dec fn zero (length xs) 0 None r xs of
                           (e, xs', r') \<Rightarrow> (None, PtrArray xs', r')))
              | PtrSlice xs \<Rightarrow>
                  (case scanAll_loop dec fn zero 0 0 None r xs of
                     (e, xs', r') \<Rightarrow> (None, PtrSlice xs', r'))
              | PtrOther \<Rightarrow>
                  (Some (ErrorString ''dest must be a pointer to a slice or array''), dest, r)))
      of (res, dest', r') \<Rightarrow>
        (case ResultSet_Close r' of
           (closeErr, r'') \<Rightarrow> ((if res = None then closeErr else res), dest', r'')))"

definition ScanAllDocs ::
  "'v decoder \<Rightarrow> 'v \<Rightarrow> ResultSet \<Rightarrow> 'v dest \<Rightarrow> error option \<times> 'v dest \<times> ResultSet" where
  "ScanAllDocs dec zero r dest = scanAll dec ScanDocFn zero r dest"

definition ScanAllValues ::
  "'v decoder \<Rightarrow> 'v \<Rightarrow> ResultSet \<Rightarrow> 'v dest \<Rightarrow> error option \<times> 'v dest \<times> ResultSet" where
  "ScanAllValues dec zero r dest = scanAll dec ScanValueFn zero r dest"

declare scanAll_loop.simps [simp del]

text \<open>What the chosen scan method decodes from a row into a fresh element.\<close>

fun scanRow :: "'v decoder \<Rightarrow> scanFn \<Rightarrow> Row \<Rightarrow> 'v \<Rightarrow> 'v \<times> error option" where
  "scanRow dec ScanDocFn row v = scanDocRow dec row v"
| "scanRow dec ScanValueFn row v = scanValueRow dec row v"

text \<open>
  \<open>ready r\<close>: no local error, no recorded error, and a state from which the iterator
  fetches. \<open>arrive r row rest\<close> is \<open>r\<close> once the driver has delivered \<open>row\<close> and has
  \<open>rest\<close> left. \<open>undelivered r\<close> is what the driver behind \<open>r\<close> has left.
\<close>

definition ready :: "rows \<Rightarrow> bool" where
  "ready r \<longleftrightarrow> err r = None \<and> lasterr (iter r) = None \<and>
               state (iter r) \<noteq> stateClosed \<and> state (iter r) \<noteq> stateEOQ"

definition undelivered :: "rows \<Rightarrow> fetched list" where
  "undelivered r = pending (Rows (feed (iter r)))"

definition arrive :: "rows \<Rightarrow> Row \<Rightarrow> fetched list \<Rightarrow> rows" where
  "arrive r row rest =
     r\<lparr>iter := (iter r)\<lparr>feed := (feed (iter r))\<lparr>Rows := (Rows (feed (iter r)))\<lparr>pending := rest\<rparr>\<rparr>,
                         curVal := row, state := stateRowReady\<rparr>\<rparr>"

subsection \<open>Concrete inputs\<close>

text \<open>
  A driver that delivers \<open>fs\<close> and whose \<^verbatim>\<open>Close\<close> returns \<open>ce\<close>; a row that carries
  the document \<open>doc\<close>; a row that carries the error \<open>e\<close>; and a decoder into numbers
  that rejects the text \<^verbatim>\<open>bad\<close> and otherwise stores the text's length.
\<close>

definition driverOf :: "fetched list \<Rightarrow> error option \<Rightarrow> driverRows" where
  "driverOf fs ce =
     \<lparr>pending = fs, rowsOffset = 0, rowsTotalRows = int (length fs), rowsUpdateSeq = [],
      rowsWarner = None, rowsBookmarker = None, rowsCloseErr = ce, rowsCloseCalls = 0\<rparr>"

definition docRow :: "string \<Rightarrow> Row" where
  "docRow doc = \<lparr>ID = [], Key = [], Value = None, Doc = Some doc, Error = None\<rparr>"

definition errorRow :: "error \<Rightarrow> Row" where
  "errorRow e = \<lparr>ID = [], Key = [], Value = None, Doc = None, Error = Some e\<rparr>"

definition lengthDecoder :: "nat decoder" where
  "lengthDecoder p d =
     (if p = ''bad'' then (d, Some (ErrorString ''invalid character'')) else (length p, None))"


section \<open>Properties of the iterator core\<close>

lemma nexts_closed_feed:
  "fst (feedNext ops f v) = Some EOF \<Longrightarrow> state it \<noteq> stateClosed \<Longrightarrow> state it \<noteq> stateEOQ \<Longrightarrow>
   lasterr it = None \<Longrightarrow> feed it = f \<Longrightarrow> curVal it = v \<Longrightarrow>
   fst (iter_Next ops it) = False \<and> lasterr (snd (iter_Next ops it)) = None"
  by (cases "feedNext ops f v"; cases "feedClose ops (snd (snd (feedNext ops f v)))")
     (auto simp: iter_Next_def iter_Close_def split: prod.splits)

lemma nexts_yields:
  "feed_yields ops (feed it) (curVal it) n \<Longrightarrow> state it \<noteq> stateClosed \<Longrightarrow>
   state it \<noteq> stateEOQ \<Longrightarrow> lasterr it = None \<Longrightarrow>
   fst (nexts ops (Suc n) it) = replicate n True @ [False] \<and>
   lasterr (snd (nexts ops (Suc n) it)) = None"
proof (induction n arbitrary: it)
  case 0
  have "fst (iter_Next ops it) = False \<and> lasterr (snd (iter_Next ops it)) = None"
    using 0 by (intro nexts_closed_feed[where f = "feed it" and v = "curVal it"]) simp_all
  then show ?case by (cases "iter_Next ops it") simp
next
  case (Suc n)
  obtain e v' f' where fn: "feedNext ops (feed it) (curVal it) = (e, v', f')"
    by (cases "feedNext ops (feed it) (curVal it)") blast
  with Suc.prems(1) have e: "e = None" and y: "feed_yields ops f' v' n"
    by (cases e; simp)+
  let ?it' = "it\<lparr>feed := f', curVal := v', state := stateRowReady\<rparr>"
  have step: "iter_Next ops it = (True, ?it')"
    using Suc.prems fn e by (simp add: iter_Next_def)
  have "fst (nexts ops (Suc n) ?it') = replicate n True @ [False] \<and>
        lasterr (snd (nexts ops (Suc n) ?it')) = None"
    using y Suc.prems by (intro Suc.IH) simp_all
  then show ?case
    using step by (simp split: prod.splits)
qed

text \<open>
  C3. For every feed that yields N successful items and then signals end-of-data,
  calling Next over and over on a fresh iterator yields exactly N true results followed
  by one false result, and Err is nil afterwards.
\<close>

theorem iterator_N_true_then_false:
  assumes "feed_yields ops f zero N"
  shows "fst (nexts ops (Suc N) (newIterator f zero)) = replicate N True @ [False] \<and>
         iter_Err (snd (nexts ops (Suc N) (newIterator f zero))) = None"
  using nexts_yields[of ops "newIterator f zero" N] assms
  by (simp add: newIterator_def iter_Err_def)

theorem iterator_N_true_then_false_witness:
  "feed_yields TestFeed_ops \<lparr>tf_max = 3, tf_i = 0, tf_closeErr = None\<rparr> 0 3 \<and>
   fst (nexts TestFeed_ops 4 (newIterator \<lparr>tf_max = 3, tf_i = 0, tf_closeErr = None\<rparr> 0))
     = [True, True, True, False] \<and>
   iter_Err (snd (nexts TestFeed_ops 4
     (newIterator \<lparr>tf_max = 3, tf_i = 0, tf_closeErr = None\<rparr> 0))) = None"
proof -
  have h: "feed_yields TestFeed_ops \<lparr>tf_max = 3, tf_i = 0, tf_closeErr = None\<rparr> 0 3"
    by (simp add: TestFeed_ops_def TestFeed_Next_def numeral_3_eq_3 Let_def)
  have e: "Suc 3 = 4" by simp
  show ?thesis
    using h iterator_N_true_then_false[OF h] unfolding e
    by (simp add: numeral_3_eq_3)
qed

section \<open>Properties of the bulk scan\<close>

lemma scanAll_loop_stop:
  "ResultSet_Next r = (False, r1) \<Longrightarrow> scanAll_loop dec fn zero limit i e r direct = (e, direct, r1)"
  by (subst scanAll_loop.simps) simp

lemma scanAll_loop_full:
  "ResultSet_Next r = (True, r1) \<Longrightarrow> 0 < limit \<Longrightarrow> limit \<le> i \<Longrightarrow>
   scanAll_loop dec fn zero limit i e r direct = (e, direct, r1)"
  by (subst scanAll_loop.simps) simp

lemma scanAll_loop_step:
  "ResultSet_Next r = (True, r1) \<Longrightarrow> \<not> (0 < limit \<and> limit \<le> i) \<Longrightarrow>
   scanWith dec fn r1 zero = (e', v, r2) \<Longrightarrow>
   scanAll_loop dec fn zero limit i e r direct =
     scanAll_loop dec fn zero limit (Suc i) e' r2
       (if 0 < limit then direct[i := v] else direct @ [v])"
  by (subst scanAll_loop.simps) auto

lemma Next_arrive:
  "ready r \<Longrightarrow> undelivered r = Fetched row # rest \<Longrightarrow>
   ResultSet_Next (RowsRS r) = (True, RowsRS (arrive r row rest))"
  by (simp add: ready_def undelivered_def rows_Next_def iter_Next_def rowsIterator_ops_def
                rowsIterator_Next_def driver_Next_def arrive_def)

lemma ready_arrive: "ready r \<Longrightarrow> ready (arrive r row rest)"
  by (simp add: ready_def arrive_def)

lemma undelivered_arrive: "undelivered (arrive r row rest) = rest"
  by (simp add: undelivered_def arrive_def)

lemma scanWith_arrive:
  "ready r \<Longrightarrow>
   scanWith dec fn (RowsRS (arrive r row rest)) zero =
     (snd (scanRow dec fn row zero), fst (scanRow dec fn row zero), RowsRS (arrive r row rest))"
  by (cases fn)
     (simp_all add: ready_def arrive_def ScanDoc_def ScanValue_def scanFrame_def makeReady_def
               split: prod.splits)

lemma arrive_arrive: "arrive (arrive r row rest) row' rest' = arrive r row' rest'"
  by (simp add: arrive_def)

lemma take_Suc_update:
  "i < length xs \<Longrightarrow> take (Suc i) (xs[i := v]) = take i xs @ [v]"
  by (simp add: take_Suc_conv_app_nth)

text \<open>
  The loop on an array with room for \<open>limit - i\<close> more elements, when the driver has
  more rows than that: the next \<open>limit - i\<close> rows are written in place, one more row is
  fetched and left unread, and the loop returns.
\<close>

lemma scanAll_loop_array:
  "ready r \<Longrightarrow> undelivered r = map Fetched rws @ rest \<Longrightarrow> 0 < limit \<Longrightarrow> i \<le> limit \<Longrightarrow>
   length direct = limit \<Longrightarrow> limit - i < length rws \<Longrightarrow>
   scanAll_loop dec fn zero limit i e (RowsRS r) direct =
     (foldl (\<lambda>_ row. snd (scanRow dec fn row zero)) e (take (limit - i) rws),
      take i direct @ map (\<lambda>row. fst (scanRow dec fn row zero)) (take (limit - i) rws),
      RowsRS (arrive r (rws ! (limit - i)) (drop (Suc (limit - i)) (map Fetched rws) @ rest)))"
proof (induction rws arbitrary: i e r direct)
  case Nil
  then show ?case by simp
next
  case (Cons row rws)
  let ?r1 = "arrive r row (map Fetched rws @ rest)"
  have nx: "ResultSet_Next (RowsRS r) = (True, RowsRS ?r1)"
    using Cons.prems by (intro Next_arrive) simp_all
  show ?case
  proof (cases "i = limit")
    case True
    then show ?thesis
      using Cons.prems nx by (simp add: scanAll_loop_full)
  next
    case False
    with Cons.prems have lt: "i < limit" by simp
    let ?v = "fst (scanRow dec fn row zero)" and ?e = "snd (scanRow dec fn row zero)"
    have sc: "scanWith dec fn (RowsRS ?r1) zero = (?e, ?v, RowsRS ?r1)"
      using Cons.prems by (intro scanWith_arrive)
    have step: "scanAll_loop dec fn zero limit i e (RowsRS r) direct =
                scanAll_loop dec fn zero limit (Suc i) ?e (RowsRS ?r1) (direct[i := ?v])"
      using scanAll_loop_step[OF nx _ sc, of limit i e direct] lt Cons.prems by simp
    have ih: "scanAll_loop dec fn zero limit (Suc i) ?e (RowsRS ?r1) (direct[i := ?v]) =
       (foldl (\<lambda>_ row. snd (scanRow dec fn row zero)) ?e (take (limit - Suc i) rws),
        take (Suc i) (direct[i := ?v]) @
          map (\<lambda>row. fst (scanRow dec fn row zero)) (take (limit - Suc i) rws),
        RowsRS (arrive ?r1 (rws ! (limit - Suc i))
                 (drop (Suc (limit - Suc i)) (map Fetched rws) @ rest)))"
      using Cons.prems lt
      by (intro Cons.IH) (simp_all add: ready_arrive undelivered_arrive)
    have sub: "limit - i = Suc (limit - Suc i)" using lt by simp
    show ?thesis
      unfolding step ih arrive_arrive
      using lt Cons.prems by (simp add: sub take_Suc_update)
  qed
qed

text \<open>
  The loop on a slice: while the driver delivers rows, each one is decoded into a fresh
  element that is appended, whatever the decoding returned.
\<close>

lemma scanAll_loop_slice:
  "ready r \<Longrightarrow> undelivered r = map Fetched rws @ rest \<Longrightarrow>
   scanAll_loop dec fn zero 0 i e (RowsRS r) direct =
     scanAll_loop dec fn zero 0 (i + length rws)
       (foldl (\<lambda>_ row. snd (scanRow dec fn row zero)) e rws)
       (RowsRS (if rws = [] then r else arrive r (last rws) rest))
       (direct @ map (\<lambda>row. fst (scanRow dec fn row zero)) rws)"
proof (induction rws arbitrary: i e r direct)
  case Nil
  then show ?case by simp
next
  case (Cons row rws)
  let ?r1 = "arrive r row (map Fetched rws @ rest)"
  let ?v = "fst (scanRow dec fn row zero)" and ?e = "snd (scanRow dec fn row zero)"
  have nx: "ResultSet_Next (RowsRS r) = (True, RowsRS ?r1)"
    using Cons.prems by (intro Next_arrive) simp_all
  have sc: "scanWith dec fn (RowsRS ?r1) zero = (?e, ?v, RowsRS ?r1)"
    using Cons.prems by (intro scanWith_arrive)
  have step: "scanAll_loop dec fn zero 0 i e (RowsRS r) direct =
              scanAll_loop dec fn zero 0 (Suc i) ?e (RowsRS ?r1) (direct @ [?v])"
    using scanAll_loop_step[OF nx _ sc, of 0 i e direct] by simp
  have ih: "scanAll_loop dec fn zero 0 (Suc i) ?e (RowsRS ?r1) (direct @ [?v]) =
     scanAll_loop dec fn zero 0 (Suc i + length rws)
       (foldl (\<lambda>_ row. snd (scanRow dec fn row zero)) ?e rws)
       (RowsRS (if rws = [] then ?r1 else arrive ?r1 (last rws) rest))
       ((direct @ [?v]) @ map (\<lambda>row. fst (scanRow dec fn row zero)) rws)"
    using Cons.prems by (intro Cons.IH) (simp_all add: ready_arrive undelivered_arrive)
  show ?case
    unfolding step ih arrive_arrive by simp
qed

lemma Next_no_row:
  "ready r \<Longrightarrow> \<forall>row rest. undelivered r \<noteq> Fetched row # rest \<Longrightarrow>
   fst (ResultSet_Next (RowsRS r)) = False"
  by (cases "undelivered r"; cases "hd (undelivered r)")
     (auto simp: ready_def undelivered_def rows_Next_def iter_Next_def rowsIterator_ops_def
                 rowsIterator_Next_def driver_Next_def Let_def
           split: prod.splits option.splits if_splits)

lemma rows_Close_open:
  "state (iter r) \<noteq> stateClosed \<Longrightarrow>
   fst (rows_Close r) = rowsCloseErr (Rows (feed (iter r))) \<and>
   state (iter (snd (rows_Close r))) = stateClosed \<and>
   undelivered (snd (rows_Close r)) = undelivered r \<and>
   rowsCloseCalls (Rows (feed (iter (snd (rows_Close r))))) =
     Suc (rowsCloseCalls (Rows (feed (iter r))))"
  by (simp add: rows_Close_def iter_Close_def rowsIterator_ops_def rowsIterator_Close_def
                driver_Close_def undelivered_def)

lemma rows_Next_closed: "state (iter r) = stateClosed \<Longrightarrow> rows_Next r = (False, r)"
  by (simp add: rows_Next_def iter_Next_def)

lemma ready_Err: "ready r \<Longrightarrow> rows_Err r = None"
  by (simp add: ready_def rows_Err_def iter_Err_def)

lemma arrive_fields:
  "state (iter (arrive r row rest)) = stateRowReady"
  "rowsCloseErr (Rows (feed (iter (arrive r row rest)))) = rowsCloseErr (Rows (feed (iter r)))"
  "rowsCloseCalls (Rows (feed (iter (arrive r row rest)))) = rowsCloseCalls (Rows (feed (iter r)))"
  by (simp_all add: arrive_def)

text \<open>
  \<^verbatim>\<open>scanAll\<close> into an array of length \<open>K > 0\<close> from a result set with more than \<open>K\<close>
  rows: what it returns, in full.
\<close>

lemma scanAll_array_more_rows:
  assumes "ready r" and "undelivered r = map Fetched rws @ rest"
    and "0 < length xs" and "length xs < length rws"
  shows "scanAll dec fn zero (RowsRS r) (PtrArray xs) =
     (rowsCloseErr (Rows (feed (iter r))),
      PtrArray (map (\<lambda>row. fst (scanRow dec fn row zero)) (take (length xs) rws)),
      RowsRS (snd (rows_Close (arrive r (rws ! length xs)
                (drop (Suc (length xs)) (map Fetched rws) @ rest)))))"
proof -
  let ?r1 = "arrive r (rws ! length xs) (drop (Suc (length xs)) (map Fetched rws) @ rest)"
  have loop: "scanAll_loop dec fn zero (length xs) 0 None (RowsRS r) xs =
     (foldl (\<lambda>_ row. snd (scanRow dec fn row zero)) None (take (length xs) rws),
      map (\<lambda>row. fst (scanRow dec fn row zero)) (take (length xs) rws),
      RowsRS ?r1)"
    using scanAll_loop_array[OF assms(1,2), of "length xs" 0 xs dec fn zero None] assms(3,4)
    by simp
  have cl: "fst (rows_Close ?r1) = rowsCloseErr (Rows (feed (iter r)))"
    using rows_Close_open[of ?r1] by (simp add: arrive_fields)
  have cl': "rows_Close ?r1 = (rowsCloseErr (Rows (feed (iter r))), snd (rows_Close ?r1))"
    using cl by (cases "rows_Close ?r1") simp
  show ?thesis
    using assms(3)
    by (simp add: scanAll_def ready_Err[OF assms(1)] loop) (subst cl', simp)
qed

lemma remaining_Close: "remaining (snd (ResultSet_Close r)) = remaining r"
  by (cases r)
     (auto simp: rows_Close_def iter_Close_def rowsIterator_ops_def rowsIterator_Close_def
                 driver_Close_def split: prod.splits)

text \<open>
  C1, as the code has it. For every array destination of length K > 0 and every result
  set with more than K rows, the bulk scan writes the first K rows' elements into the
  array and stops; it has then fetched K + 1 rows, and it closes the result set before
  it returns (the comment of ScanAllDocs: the iterator is closed by this method), so
  that advancing the result set afterwards yields no row. The returned error is the
  error of the driver's Close.
\<close>

theorem scanAll_array_stops_when_full:
  assumes "ready r" and "undelivered r = map Fetched rws @ rest"
    and "0 < length xs" and "length xs < length rws"
  shows "fst (snd (scanAll dec fn zero (RowsRS r) (PtrArray xs))) =
           PtrArray (map (\<lambda>row. fst (scanRow dec fn row zero)) (take (length xs) rws)) \<and>
         fst (scanAll dec fn zero (RowsRS r) (PtrArray xs)) = rowsCloseErr (Rows (feed (iter r))) \<and>
         ResultSet_Next (snd (snd (scanAll dec fn zero (RowsRS r) (PtrArray xs)))) =
           (False, snd (snd (scanAll dec fn zero (RowsRS r) (PtrArray xs)))) \<and>
         remaining (snd (snd (scanAll dec fn zero (RowsRS r) (PtrArray xs)))) =
           length rws - Suc (length xs) + length rest"
proof -
  let ?r1 = "arrive r (rws ! length xs) (drop (Suc (length xs)) (map Fetched rws) @ rest)"
  have open1: "state (iter ?r1) \<noteq> stateClosed"
    by (simp add: arrive_fields)
  have closed: "state (iter (snd (rows_Close ?r1))) = stateClosed"
    using rows_Close_open[OF open1] by simp
  have left: "undelivered (snd (rows_Close ?r1)) =
              drop (Suc (length xs)) (map Fetched rws) @ rest"
    using rows_Close_open[OF open1] by (simp add: undelivered_arrive)
  have rem: "remaining (RowsRS (snd (rows_Close ?r1))) =
             length rws - Suc (length xs) + length rest"
    using left by (simp add: undelivered_def)
  show ?thesis
    unfolding scanAll_array_more_rows[OF assms]
    using rem by (simp add: rows_Next_closed[OF closed])
qed

theorem scanAll_array_stops_when_full_witness:
  "ready (newRows (driverOf (map Fetched [docRow ''a'', docRow ''bb'', docRow ''ccc'',
                                          docRow ''dddd'', docRow ''eeeee'']) None)) \<and>
   undelivered (newRows (driverOf (map Fetched [docRow ''a'', docRow ''bb'', docRow ''ccc'',
                                          docRow ''dddd'', docRow ''eeeee'']) None)) =
     map Fetched [docRow ''a'', docRow ''bb'', docRow ''ccc'', docRow ''dddd'', docRow ''eeeee'']
       @ [] \<and>
   0 < length [0, 0, 0 :: nat] \<and>
   length [0, 0, 0 :: nat] <
     length [docRow ''a'', docRow ''bb'', docRow ''ccc'', docRow ''dddd'', docRow ''eeeee''] \<and>
   fst (snd (scanAll lengthDecoder ScanDocFn 0
     (RowsRS (newRows (driverOf (map Fetched [docRow ''a'', docRow ''bb'', docRow ''ccc'',
                                          docRow ''dddd'', docRow ''eeeee'']) None)))
     (PtrArray [0, 0, 0]))) = PtrArray [1, 2, 3] \<and>
   remaining (snd (snd (scanAll lengthDecoder ScanDocFn 0
     (RowsRS (newRows (driverOf (map Fetched [docRow ''a'', docRow ''bb'', docRow ''ccc'',
                                          docRow ''dddd'', docRow ''eeeee'']) None)))
     (PtrArray [0, 0, 0])))) = 1"
proof -
  let ?rws = "[docRow ''a'', docRow ''bb'', docRow ''ccc'', docRow ''dddd'', docRow ''eeeee'']"
  let ?r = "newRows (driverOf (map Fetched ?rws) None)"
  have h1: "ready ?r"
    by (simp add: ready_def newRows_def newIterator_def)
  have h2: "undelivered ?r = map Fetched ?rws @ []"
    by (simp add: undelivered_def newRows_def newIterator_def driverOf_def)
  have h3: "0 < length [0, 0, 0 :: nat]" by simp
  have h4: "length [0, 0, 0 :: nat] < length ?rws" by simp
  have el: "map (\<lambda>row. fst (scanRow lengthDecoder ScanDocFn row 0)) (take (length [0, 0, 0 :: nat]) ?rws)
            = [1, 2, 3]"
    by (simp add: scanDocRow_def docRow_def lengthDecoder_def)
  show ?thesis
    using h1 h2 scanAll_array_stops_when_full[OF h1 h2 h3 h4, of lengthDecoder ScanDocFn 0]
    unfolding el by simp
qed

text \<open>
  The claim as stated fails: with capacity 3 and a source of 5 rows the destination
  holds the first 3, but the result set is closed, not left open, and advancing it
  afterwards yields no row; the fourth row has been fetched and dropped, and only the
  fifth is undelivered.
\<close>

theorem scanAll_array_leaves_open_counterexample:
  "fst (snd (ScanAllDocs lengthDecoder 0
     (RowsRS (newRows (driverOf (map Fetched [docRow ''a'', docRow ''bb'', docRow ''ccc'',
                                          docRow ''dddd'', docRow ''eeeee'']) None)))
     (PtrArray [0, 0, 0]))) = PtrArray [1, 2, 3] \<and>
   \<not> fst (ResultSet_Next (snd (snd (ScanAllDocs lengthDecoder 0
     (RowsRS (newRows (driverOf (map Fetched [docRow ''a'', docRow ''bb'', docRow ''ccc'',
                                          docRow ''dddd'', docRow ''eeeee'']) None)))
     (PtrArray [0, 0, 0]))))) \<and>
   remaining (snd (snd (ScanAllDocs lengthDecoder 0
     (RowsRS (newRows (driverOf (map Fetched [docRow ''a'', docRow ''bb'', docRow ''ccc'',
                                          docRow ''dddd'', docRow ''eeeee'']) None)))
     (PtrArray [0, 0, 0])))) = 1"
proof -
  let ?rws = "[docRow ''a'', docRow ''bb'', docRow ''ccc'', docRow ''dddd'', docRow ''eeeee'']"
  let ?r = "newRows (driverOf (map Fetched ?rws) None)"
  let ?r1 = "arrive ?r (?rws ! length [0, 0, 0 :: nat])
               (drop (Suc (length [0, 0, 0 :: nat])) (map Fetched ?rws) @ [])"
  have h1: "ready ?r"
    by (simp add: ready_def newRows_def newIterator_def)
  have h2: "undelivered ?r = map Fetched ?rws @ []"
    by (simp add: undelivered_def newRows_def newIterator_def driverOf_def)
  have el: "map (\<lambda>row. fst (scanRow lengthDecoder ScanDocFn row 0)) (take (length [0, 0, 0 :: nat]) ?rws)
            = [1, 2, 3]"
    by (simp add: scanDocRow_def docRow_def lengthDecoder_def)
  have run: "ScanAllDocs lengthDecoder 0 (RowsRS ?r) (PtrArray [0, 0, 0]) =
     (rowsCloseErr (Rows (feed (iter ?r))), PtrArray [1, 2, 3], RowsRS (snd (rows_Close ?r1)))"
    unfolding ScanAllDocs_def
    using scanAll_array_more_rows[OF h1 h2, of "[0, 0, 0]" lengthDecoder ScanDocFn 0]
    unfolding el by simp
  have open1: "state (iter ?r1) \<noteq> stateClosed"
    by (simp add: arrive_fields)
  have closed: "state (iter (snd (rows_Close ?r1))) = stateClosed"
    using rows_Close_open[OF open1] by simp
  have left: "undelivered (snd (rows_Close ?r1)) = [Fetched (docRow ''eeeee'')]"
    using rows_Close_open[OF open1] by (simp add: undelivered_arrive)
  have nx: "rows_Next (snd (rows_Close ?r1)) = (False, snd (rows_Close ?r1))"
    by (rule rows_Next_closed[OF closed])
  have rem: "remaining (RowsRS (snd (rows_Close ?r1))) = 1"
    using left by (simp add: undelivered_def)
  show ?thesis
    unfolding run using nx rem by simp
qed

lemma scanAll_zero_length_run:
  "scanAll dec fn zero r (PtrArray []) =
     ((case ResultSet_Err r of
         Some e \<Rightarrow> Some e
       | None \<Rightarrow> Some (ErrorString ''0-length array passed to ScanAllDocs'')),
      PtrArray [], snd (ResultSet_Close r))"
  by (cases "ResultSet_Err r"; cases "ResultSet_Close r") (simp_all add: scanAll_def)

lemma Next_after_Close: "fst (ResultSet_Next (snd (ResultSet_Close r))) = False"
proof (cases r)
  case (RowsRS x)
  have "state (iter (snd (rows_Close x))) = stateClosed"
    by (simp add: rows_Close_def iter_Close_def split: prod.splits)
  from rows_Next_closed[OF this] show ?thesis
    using RowsRS by (simp add: split_beta)
next
  case (ErrRS e)
  then show ?thesis by simp
qed

text \<open>
  C5, as the code has it. An array destination of length 0 is rejected before any
  iteration: the bulk scan returns an error (the recorded error of the result set if
  there is one, else the rejection of the destination), the destination is untouched,
  and no row is fetched. The result set does not stay as it was: the deferred Close
  runs on this path too, so the result set is closed when the bulk scan returns and a
  later Next returns false.
\<close>

theorem scanAll_zero_length_array:
  "scanAll dec fn zero r (PtrArray []) =
     ((case ResultSet_Err r of
         Some e \<Rightarrow> Some e
       | None \<Rightarrow> Some (ErrorString ''0-length array passed to ScanAllDocs'')),
      PtrArray [], snd (ResultSet_Close r)) \<and>
   fst (scanAll dec fn zero r (PtrArray [])) \<noteq> None \<and>
   remaining (snd (snd (scanAll dec fn zero r (PtrArray [])))) = remaining r \<and>
   fst (ResultSet_Next (snd (snd (scanAll dec fn zero r (PtrArray []))))) = False"
  unfolding scanAll_zero_length_run
  by (simp add: remaining_Close Next_after_Close split: option.splits)

text \<open>
  The claim as stated fails where it says that the result set is not touched: a fresh
  result set with one row would deliver that row, and after the bulk scan into an
  array of length 0 it is another result set, closed, that delivers nothing.
\<close>

theorem scanAll_zero_length_array_untouched_counterexample:
  "fst (ResultSet_Next (RowsRS (newRows (driverOf [Fetched (docRow ''a'')] None)))) = True \<and>
   snd (snd (ScanAllDocs lengthDecoder 0
     (RowsRS (newRows (driverOf [Fetched (docRow ''a'')] None))) (PtrArray []))) \<noteq>
     RowsRS (newRows (driverOf [Fetched (docRow ''a'')] None)) \<and>
   fst (ResultSet_Next (snd (snd (ScanAllDocs lengthDecoder 0
     (RowsRS (newRows (driverOf [Fetched (docRow ''a'')] None))) (PtrArray []))))) = False"
proof -
  let ?r = "newRows (driverOf [Fetched (docRow ''a'')] None)"
  have before: "fst (ResultSet_Next (RowsRS ?r)) = True"
    by (simp add: rows_Next_def iter_Next_def rowsIterator_ops_def rowsIterator_Next_def
                  driver_Next_def newRows_def newIterator_def driverOf_def)
  have after: "fst (ResultSet_Next (snd (ResultSet_Close (RowsRS ?r)))) = False"
    by (rule Next_after_Close)
  from before after have ne: "snd (ResultSet_Close (RowsRS ?r)) \<noteq> RowsRS ?r"
    by auto
  show ?thesis
    unfolding ScanAllDocs_def scanAll_zero_length_run
    using before after ne by simp
qed

lemma foldl_last_scan:
  "foldl (\<lambda>_ row. g row) e rws = (if rws = [] then e else g (last rws))"
  by (induction rws arbitrary: e) auto

text \<open>
  \<^verbatim>\<open>scanAll\<close> into a slice from a result set whose driver delivers the rows \<open>rws\<close> and
  then something that is not a row: the loop's three results, and what \<^verbatim>\<open>scanAll\<close>
  makes of them.
\<close>

lemma scanAll_loop_slice_rows:
  assumes "ready r" and "undelivered r = map Fetched rws @ rest"
    and "\<forall>row tl. rest \<noteq> Fetched row # tl"
  shows "scanAll_loop dec fn zero 0 0 None (RowsRS r) xs =
     ((if rws = [] then None else snd (scanRow dec fn (last rws) zero)),
      xs @ map (\<lambda>row. fst (scanRow dec fn row zero)) rws,
      snd (ResultSet_Next (RowsRS (if rws = [] then r else arrive r (last rws) rest))))"
proof -
  let ?r1 = "if rws = [] then r else arrive r (last rws) rest"
  have rd: "ready ?r1" using assms(1) by (simp add: ready_arrive)
  have un: "undelivered ?r1 = rest" using assms(2) by (simp add: undelivered_arrive)
  have "fst (ResultSet_Next (RowsRS ?r1)) = False"
    using Next_no_row[OF rd] assms(3) un by simp
  then have nx: "ResultSet_Next (RowsRS ?r1) = (False, snd (ResultSet_Next (RowsRS ?r1)))"
    by (cases "ResultSet_Next (RowsRS ?r1)") simp
  show ?thesis
    unfolding scanAll_loop_slice[OF assms(1,2), of dec fn zero 0 None xs]
    by (subst scanAll_loop_stop[OF nx]) (simp add: foldl_last_scan)
qed

lemma scanAll_slice_rows:
  assumes "ready r" and "undelivered r = map Fetched rws @ rest"
    and "\<forall>row tl. rest \<noteq> Fetched row # tl"
  shows "scanAll dec fn zero (RowsRS r) (PtrSlice xs) =
     (fst (ResultSet_Close
        (snd (ResultSet_Next (RowsRS (if rws = [] then r else arrive r (last rws) rest))))),
      PtrSlice (xs @ map (\<lambda>row. fst (scanRow dec fn row zero)) rws),
      snd (ResultSet_Close
        (snd (ResultSet_Next (RowsRS (if rws = [] then r else arrive r (last rws) rest))))))"
  unfolding scanAll_def scanAll_loop_slice_rows[OF assms]
  by (simp add: ready_Err[OF assms(1)] split: prod.splits)

text \<open>At the end of the data the iterator closes itself, and a later Close returns nil.\<close>

lemma Next_end_of_data:
  "ready r \<Longrightarrow> undelivered r = [] \<Longrightarrow>
   fst (ResultSet_Close (snd (ResultSet_Next (RowsRS r)))) = None"
  by (simp add: ready_def undelivered_def rows_Next_def iter_Next_def rowsIterator_ops_def
                rowsIterator_Next_def driver_Next_def Let_def iter_Close_def rows_Close_def
                rowsIterator_Close_def driver_Close_def)

text \<open>
  The loop on an array that has room for all the rows the driver still delivers: each
  row is written in place and the elements behind them stay as they are.
\<close>

lemma scanAll_loop_array_room:
  "ready r \<Longrightarrow> undelivered r = map Fetched rws @ rest \<Longrightarrow> \<forall>row tl. rest \<noteq> Fetched row # tl \<Longrightarrow>
   0 < limit \<Longrightarrow> length direct = limit \<Longrightarrow> i + length rws \<le> limit \<Longrightarrow>
   scanAll_loop dec fn zero limit i e (RowsRS r) direct =
     ((if rws = [] then e else snd (scanRow dec fn (last rws) zero)),
      take i direct @ map (\<lambda>row. fst (scanRow dec fn row zero)) rws @
        drop (i + length rws) direct,
      snd (ResultSet_Next (RowsRS (if rws = [] then r else arrive r (last rws) rest))))"
proof (induction rws arbitrary: i e r direct)
  case Nil
  have "fst (ResultSet_Next (RowsRS r)) = False"
    using Next_no_row[OF Nil.prems(1)] Nil.prems(2,3) by simp
  then have nx: "ResultSet_Next (RowsRS r) = (False, snd (ResultSet_Next (RowsRS r)))"
    by (cases "ResultSet_Next (RowsRS r)") simp
  show ?case
    by (subst scanAll_loop_stop[OF nx]) simp
next
  case (Cons row rws)
  let ?r1 = "arrive r row (map Fetched rws @ rest)"
  let ?v = "fst (scanRow dec fn row zero)" and ?e = "snd (scanRow dec fn row zero)"
  have lt: "i < limit" using Cons.prems by simp
  have nx: "ResultSet_Next (RowsRS r) = (True, RowsRS ?r1)"
    using Cons.prems by (intro Next_arrive) simp_all
  have sc: "scanWith dec fn (RowsRS ?r1) zero = (?e, ?v, RowsRS ?r1)"
    using Cons.prems by (intro scanWith_arrive)
  have step: "scanAll_loop dec fn zero limit i e (RowsRS r) direct =
              scanAll_loop dec fn zero limit (Suc i) ?e (RowsRS ?r1) (direct[i := ?v])"
    using scanAll_loop_step[OF nx _ sc, of limit i e direct] lt Cons.prems by simp
  have ih: "scanAll_loop dec fn zero limit (Suc i) ?e (RowsRS ?r1) (direct[i := ?v]) =
     ((if rws = [] then ?e else snd (scanRow dec fn (last rws) zero)),
      take (Suc i) (direct[i := ?v]) @ map (\<lambda>row. fst (scanRow dec fn row zero)) rws @
        drop (Suc i + length rws) (direct[i := ?v]),
      snd (ResultSet_Next (RowsRS (if rws = [] then ?r1 else arrive ?r1 (last rws) rest))))"
    using Cons.prems
    by (intro Cons.IH) (simp_all add: ready_arrive undelivered_arrive)
  show ?case
    unfolding step ih arrive_arrive
    using lt Cons.prems by (simp add: take_Suc_update)
qed

text \<open>
  \<^verbatim>\<open>scanAll\<close>'s destination after a scan into an array of length \<open>K > 0\<close>, whether the
  driver delivers more rows than \<open>K\<close> or not.
\<close>

lemma scanAll_array_dest:
  assumes "ready r" and "undelivered r = map Fetched rws @ rest"
    and "\<forall>row tl. rest \<noteq> Fetched row # tl" and "0 < length xs"
  shows "fst (snd (scanAll dec fn zero (RowsRS r) (PtrArray xs))) =
     PtrArray (map (\<lambda>row. fst (scanRow dec fn row zero)) (take (length xs) rws) @
               drop (length rws) xs)"
proof (cases "length xs < length rws")
  case True
  then show ?thesis
    unfolding scanAll_array_more_rows[OF assms(1,2,4) True] by simp
next
  case False
  then have le: "0 + length rws \<le> length xs" by simp
  have loop: "fst (snd (scanAll_loop dec fn zero (length xs) 0 None (RowsRS r) xs)) =
              map (\<lambda>row. fst (scanRow dec fn row zero)) rws @ drop (length rws) xs"
    using scanAll_loop_array_room[OF assms(1,2,3,4) refl le, of dec fn zero None] by simp
  obtain e' d' r' where run: "scanAll_loop dec fn zero (length xs) 0 None (RowsRS r) xs = (e', d', r')"
    by (cases "scanAll_loop dec fn zero (length xs) 0 None (RowsRS r) xs") blast
  show ?thesis
    using assms(4) False loop
    by (cases "ResultSet_Close r'") (simp add: scanAll_def ready_Err[OF assms(1)] run)
qed

lemma scanRow_row_error: "Error row = Some e \<Longrightarrow> scanRow dec fn row zero = (zero, Some e)"
  by (cases fn) (simp_all add: scanDocRow_def scanValueRow_def)

lemma ready_newRows: "ready (newRows d)"
  by (simp add: ready_def newRows_def newIterator_def)

lemma undelivered_newRows: "undelivered (newRows (driverOf fs ce)) = fs"
  by (simp add: undelivered_def newRows_def newIterator_def driverOf_def)

lemma closeErr_newRows: "rowsCloseErr (Rows (feed (iter (newRows (driverOf fs ce))))) = ce"
  by (simp add: newRows_def newIterator_def driverOf_def)

text \<open>
  \<^verbatim>\<open>scanAll\<close> into a slice when the driver delivers the rows \<open>rws\<close> and then ends: the
  returned error is nil, whatever the rows' decoding returned.
\<close>

lemma scanAll_slice_to_end:
  assumes "ready r" and "undelivered r = map Fetched rws @ []"
  shows "fst (scanAll dec fn zero (RowsRS r) (PtrSlice xs)) = None"
proof -
  let ?r1 = "if rws = [] then r else arrive r (last rws) []"
  have rd: "ready ?r1" using assms(1) by (simp add: ready_arrive)
  have un: "undelivered ?r1 = []" using assms(2) by (simp add: undelivered_arrive)
  show ?thesis
    unfolding scanAll_slice_rows[OF assms, simplified]
    using Next_end_of_data[OF rd un] by simp
qed

text \<open>
  C2, the code at a failing input. The first of two rows fails to decode (it carries
  the row error \<^verbatim>\<open>boom\<close>) and a later row remains. ScanAllDocs writes an element for
  each row, the failed row's being the zero value, and returns nil: the named result
  that the loop assigned is overwritten by \<^verbatim>\<open>return nil\<close>.
\<close>

theorem scanAll_drops_decode_error:
  "snd (scanRow lengthDecoder ScanDocFn (errorRow (ErrorString ''boom'')) 0) =
     Some (ErrorString ''boom'') \<and>
   fst (ScanAllDocs lengthDecoder 0
     (RowsRS (newRows (driverOf (map Fetched [errorRow (ErrorString ''boom''), docRow ''bb''])
        None)))
     (PtrSlice [])) = None \<and>
   fst (snd (ScanAllDocs lengthDecoder 0
     (RowsRS (newRows (driverOf (map Fetched [errorRow (ErrorString ''boom''), docRow ''bb''])
        None)))
     (PtrSlice []))) = PtrSlice [0, 2]"
proof -
  let ?rws = "[errorRow (ErrorString ''boom''), docRow ''bb'']"
  let ?r = "newRows (driverOf (map Fetched ?rws) None)"
  have h2: "undelivered ?r = map Fetched ?rws @ []"
    by (simp add: undelivered_newRows)
  have h3: "\<forall>row tl. ([]::fetched list) \<noteq> Fetched row # tl" by simp
  have el: "map (\<lambda>row. fst (scanRow lengthDecoder ScanDocFn row 0)) ?rws = [0, 2]"
    by (simp add: scanDocRow_def docRow_def errorRow_def lengthDecoder_def)
  have d: "fst (snd (scanAll lengthDecoder ScanDocFn 0 (RowsRS ?r) (PtrSlice []))) =
           PtrSlice [0, 2]"
    unfolding scanAll_slice_rows[OF ready_newRows h2 h3] el by simp
  have e: "fst (scanAll lengthDecoder ScanDocFn 0 (RowsRS ?r) (PtrSlice [])) = None"
    by (rule scanAll_slice_to_end[OF ready_newRows h2])
  show ?thesis
    unfolding ScanAllDocs_def using d e
    by (simp add: scanDocRow_def errorRow_def)
qed

text \<open>
  C4, the code at a failing input. The array has one element, the first row fails to
  decode, a second row remains, and the driver's Close fails. The result set is closed,
  but the close's error is returned although the decoding error occurred before it:
  \<^verbatim>\<open>return nil\<close> has emptied the named result before the deferred function tests it.
\<close>

theorem scanAll_close_error_after_decode_error:
  "snd (scanRow lengthDecoder ScanDocFn (errorRow (ErrorString ''boom'')) 0) =
     Some (ErrorString ''boom'') \<and>
   fst (ScanAllDocs lengthDecoder 0
     (RowsRS (newRows (driverOf (map Fetched [errorRow (ErrorString ''boom''), docRow ''bb''])
        (Some (ErrorString ''close failed'')))))
     (PtrArray [7])) = Some (ErrorString ''close failed'') \<and>
   fst (snd (ScanAllDocs lengthDecoder 0
     (RowsRS (newRows (driverOf (map Fetched [errorRow (ErrorString ''boom''), docRow ''bb''])
        (Some (ErrorString ''close failed'')))))
     (PtrArray [7]))) = PtrArray [0] \<and>
   \<not> fst (ResultSet_Next (snd (snd (ScanAllDocs lengthDecoder 0
     (RowsRS (newRows (driverOf (map Fetched [errorRow (ErrorString ''boom''), docRow ''bb''])
        (Some (ErrorString ''close failed'')))))
     (PtrArray [7])))))"
proof -
  let ?rws = "[errorRow (ErrorString ''boom''), docRow ''bb'']"
  let ?r = "newRows (driverOf (map Fetched ?rws) (Some (ErrorString ''close failed'')))"
  let ?r1 = "arrive ?r (?rws ! length [7::nat]) (drop (Suc (length [7::nat])) (map Fetched ?rws) @ [])"
  have h2: "undelivered ?r = map Fetched ?rws @ []"
    by (simp add: undelivered_newRows)
  have el: "map (\<lambda>row. fst (scanRow lengthDecoder ScanDocFn row 0)) (take (length [7::nat]) ?rws)
            = [0]"
    by (simp add: scanDocRow_def errorRow_def)
  have run: "scanAll lengthDecoder ScanDocFn 0 (RowsRS ?r) (PtrArray [7]) =
     (Some (ErrorString ''close failed''), PtrArray [0], RowsRS (snd (rows_Close ?r1)))"
    using scanAll_array_more_rows[OF ready_newRows h2, of "[7]" lengthDecoder ScanDocFn 0]
    unfolding el closeErr_newRows by simp
  have open1: "state (iter ?r1) \<noteq> stateClosed"
    by (simp add: arrive_fields)
  have closed: "state (iter (snd (rows_Close ?r1))) = stateClosed"
    using rows_Close_open[OF open1] by simp
  have nx: "rows_Next (snd (rows_Close ?r1)) = (False, snd (rows_Close ?r1))"
    by (rule rows_Next_closed[OF closed])
  show ?thesis
    unfolding ScanAllDocs_def run using nx
    by (simp add: scanDocRow_def errorRow_def)
qed

text \<open>
  After a row fails to decode the bulk scan goes on: every row the driver delivers gets
  a fresh element that is written to the destination whatever its decoding returned
  (appended to a slice; written in place in an array until the array is full), so a row
  that fails with its row error leaves the zero value at its position and the rows
  after it are written as well. Each pass assigns the scan's result to the named
  result, so when the loop ends the variable holds the last row's result.
\<close>

lemma scanAll_writes_every_row:
  assumes "ready r" and "undelivered r = map Fetched rws @ rest"
    and "\<forall>row tl. rest \<noteq> Fetched row # tl"
  shows "fst (snd (scanAll dec fn zero (RowsRS r) (PtrSlice xs))) =
           PtrSlice (xs @ map (\<lambda>row. fst (scanRow dec fn row zero)) rws) \<and>
         (0 < length ys \<longrightarrow>
            fst (snd (scanAll dec fn zero (RowsRS r) (PtrArray ys))) =
              PtrArray (map (\<lambda>row. fst (scanRow dec fn row zero)) (take (length ys) rws) @
                        drop (length rws) ys)) \<and>
         (\<forall>row \<in> set rws. \<forall>e. Error row = Some e \<longrightarrow>
            scanRow dec fn row zero = (zero, Some e)) \<and>
         fst (scanAll_loop dec fn zero 0 0 None (RowsRS r) xs) =
           (if rws = [] then None else snd (scanRow dec fn (last rws) zero))"
proof -
  have a: "fst (snd (scanAll dec fn zero (RowsRS r) (PtrSlice xs))) =
           PtrSlice (xs @ map (\<lambda>row. fst (scanRow dec fn row zero)) rws)"
    unfolding scanAll_slice_rows[OF assms] by simp
  have b: "0 < length ys \<longrightarrow>
            fst (snd (scanAll dec fn zero (RowsRS r) (PtrArray ys))) =
              PtrArray (map (\<lambda>row. fst (scanRow dec fn row zero)) (take (length ys) rws) @
                        drop (length rws) ys)"
    by (simp add: scanAll_array_dest[OF assms])
  have c: "\<forall>row \<in> set rws. \<forall>e. Error row = Some e \<longrightarrow>
            scanRow dec fn row zero = (zero, Some e)"
    by (simp add: scanRow_row_error)
  have d: "fst (scanAll_loop dec fn zero 0 0 None (RowsRS r) xs) =
           (if rws = [] then None else snd (scanRow dec fn (last rws) zero))"
    unfolding scanAll_loop_slice_rows[OF assms] by simp
  show ?thesis by (intro conjI a b c d)
qed

text \<open>
  C10, the code at a failing input. The driver delivers three rows: the first fails to
  decode with its row error \<^verbatim>\<open>first\<close>, the second decodes, the last fails with its row
  error \<^verbatim>\<open>last\<close>. The bulk scan into a slice goes on after the failed row and writes
  one element per row, the failed rows' being the zero value. When the loop ends, the
  named result holds the last row's error, the first row's having been overwritten. But
  the error returned is nil, not the last row's: \<^verbatim>\<open>return nil\<close> overwrites the named
  result.
\<close>

theorem scanAll_last_row_error_not_returned:
  "snd (scanRow lengthDecoder ScanDocFn (errorRow (ErrorString ''last'')) 0) =
     Some (ErrorString ''last'') \<and>
   fst (snd (ScanAllDocs lengthDecoder 0
     (RowsRS (newRows (driverOf (map Fetched
        [errorRow (ErrorString ''first''), docRow ''bb'', errorRow (ErrorString ''last'')])
        None)))
     (PtrSlice []))) = PtrSlice [0, 2, 0] \<and>
   fst (scanAll_loop lengthDecoder ScanDocFn 0 0 0 None
     (RowsRS (newRows (driverOf (map Fetched
        [errorRow (ErrorString ''first''), docRow ''bb'', errorRow (ErrorString ''last'')])
        None))) []) = Some (ErrorString ''last'') \<and>
   fst (ScanAllDocs lengthDecoder 0
     (RowsRS (newRows (driverOf (map Fetched
        [errorRow (ErrorString ''first''), docRow ''bb'', errorRow (ErrorString ''last'')])
        None)))
     (PtrSlice [])) = None"
proof -
  let ?rws = "[errorRow (ErrorString ''first''), docRow ''bb'', errorRow (ErrorString ''last'')]"
  let ?r = "newRows (driverOf (map Fetched ?rws) None)"
  have h2: "undelivered ?r = map Fetched ?rws @ []"
    by (simp add: undelivered_newRows)
  have h3: "\<forall>row tl. ([]::fetched list) \<noteq> Fetched row # tl" by simp
  have el: "map (\<lambda>row. fst (scanRow lengthDecoder ScanDocFn row 0)) ?rws = [0, 2, 0]"
    by (simp add: scanDocRow_def docRow_def errorRow_def lengthDecoder_def)
  have la: "snd (scanRow lengthDecoder ScanDocFn (errorRow (ErrorString ''last'')) 0) =
            Some (ErrorString ''last'')"
    by (simp add: scanDocRow_def errorRow_def)
  have d: "fst (snd (scanAll lengthDecoder ScanDocFn 0 (RowsRS ?r) (PtrSlice []))) =
           PtrSlice [0, 2, 0]"
    unfolding scanAll_slice_rows[OF ready_newRows h2 h3] el by simp
  have v: "fst (scanAll_loop lengthDecoder ScanDocFn 0 0 0 None (RowsRS ?r) []) =
           Some (ErrorString ''last'')"
    unfolding scanAll_loop_slice_rows[OF ready_newRows h2 h3] using la by simp
  have e: "fst (scanAll lengthDecoder ScanDocFn 0 (RowsRS ?r) (PtrSlice [])) = None"
    by (rule scanAll_slice_to_end[OF ready_newRows h2])
  show ?thesis
    unfolding ScanAllDocs_def by (intro conjI la d v e)
qed

section \<open>Properties of the rows result set\<close>

text \<open>
  C6. NextResultSet called while a row is ready fails: it returns false and leaves a
  recorded error behind (the error it sets, if none was recorded before). Called on a
  closed iterator or with an error already recorded it returns false and changes
  nothing. Otherwise it succeeds: it returns true and the state is ResultSetReady.
\<close>

theorem NextResultSet_outcomes:
  "(state (iter r) = stateRowReady \<longrightarrow>
      fst (NextResultSet r) = False \<and>
      lasterr (iter (snd (NextResultSet r))) \<noteq> None \<and>
      (lasterr (iter r) = None \<longrightarrow>
         lasterr (iter (snd (NextResultSet r))) =
           Some (ErrorString ''must call NextResultSet before Next''))) \<and>
   (state (iter r) = stateClosed \<or> lasterr (iter r) \<noteq> None \<longrightarrow>
      NextResultSet r = (False, r)) \<and>
   (state (iter r) \<noteq> stateRowReady \<and> state (iter r) \<noteq> stateClosed \<and> lasterr (iter r) = None \<longrightarrow>
      fst (NextResultSet r) = True \<and>
      state (iter (snd (NextResultSet r))) = stateResultSetReady)"
  by (auto simp: NextResultSet_def)


theorem NextResultSet_outcomes_witness:
  "state (iter (arrive (newRows (driverOf [Fetched (docRow ''a'')] None)) (docRow ''a'') [])) =
     stateRowReady \<and>
   lasterr (iter (arrive (newRows (driverOf [Fetched (docRow ''a'')] None)) (docRow ''a'') [])) =
     None \<and>
   fst (NextResultSet
     (arrive (newRows (driverOf [Fetched (docRow ''a'')] None)) (docRow ''a'') [])) = False \<and>
   lasterr (iter (snd (NextResultSet
     (arrive (newRows (driverOf [Fetched (docRow ''a'')] None)) (docRow ''a'') [])))) =
     Some (ErrorString ''must call NextResultSet before Next'') \<and>
   state (iter (snd (rows_Close (newRows (driverOf [] None))))) = stateClosed \<and>
   fst (NextResultSet (snd (rows_Close (newRows (driverOf [] None))))) = False \<and>
   state (iter (newRows (driverOf [] None))) \<noteq> stateRowReady \<and>
   state (iter (newRows (driverOf [] None))) \<noteq> stateClosed \<and>
   lasterr (iter (newRows (driverOf [] None))) = None \<and>
   fst (NextResultSet (newRows (driverOf [] None))) = True \<and>
   state (iter (snd (NextResultSet (newRows (driverOf [] None))))) = stateResultSetReady"
proof -
  let ?r1 = "arrive (newRows (driverOf [Fetched (docRow ''a'')] None)) (docRow ''a'') []"
  let ?r2 = "snd (rows_Close (newRows (driverOf [] None)))"
  let ?r3 = "newRows (driverOf [] None)"
  have s1: "state (iter ?r1) = stateRowReady" by (simp add: arrive_fields)
  have l1: "lasterr (iter ?r1) = None"
    using ready_arrive[OF ready_newRows] by (simp add: ready_def)
  have s2: "state (iter ?r2) = stateClosed"
    by (simp add: rows_Close_def iter_Close_def newRows_def newIterator_def
                  rowsIterator_ops_def rowsIterator_Close_def driver_Close_def)
  have s3: "state (iter ?r3) \<noteq> stateRowReady" "state (iter ?r3) \<noteq> stateClosed"
           "lasterr (iter ?r3) = None"
    by (simp_all add: newRows_def newIterator_def)
  have a: "fst (NextResultSet ?r1) = False"
    and b: "lasterr (iter (snd (NextResultSet ?r1))) =
              Some (ErrorString ''must call NextResultSet before Next'')"
    using NextResultSet_outcomes[of ?r1] s1 l1 by blast+
  have c: "fst (NextResultSet ?r2) = False"
    using NextResultSet_outcomes[of ?r2] s2 by simp
  have d: "fst (NextResultSet ?r3) = True"
    and e: "state (iter (snd (NextResultSet ?r3))) = stateResultSetReady"
    using NextResultSet_outcomes[of ?r3] s3 by blast+
  show ?thesis
    by (intro conjI s1 l1 a b s2 c s3 d e)
qed

text \<open>
  C7. Metadata returns the "not ready" error whenever the iterator's state is neither
  EOQ nor Closed. When the driver's next fetch signals end-of-data or end-of-query, the
  Metadata call after that Next returns no error and the values the driver reports:
  offset, total rows, update sequence, and the warning and the bookmark, which are
  empty, not an error, when the driver lacks the optional capability.
\<close>

theorem Metadata_not_ready_or_reported:
  "(state (iter r) \<noteq> stateEOQ \<and> state (iter r) \<noteq> stateClosed \<longrightarrow>
      Metadata r =
        (None, Some (KivikError 400
           ''Metadata must not be called until result set iteration is complete''))) \<and>
   (ready r \<and> (e = EOF \<or> e = EOQ) \<and>
    driver_Next (Rows (feed (iter r))) (curVal (iter r)) = (Some e, slot, d) \<longrightarrow>
      Metadata (snd (rows_Next r)) =
        (Some \<lparr>Offset = rowsOffset d, TotalRows = rowsTotalRows d,
               UpdateSeq = rowsUpdateSeq d,
               Warning = (case rowsWarner d of Some w \<Rightarrow> w | None \<Rightarrow> []),
               Bookmark = (case rowsBookmarker d of Some b \<Rightarrow> b | None \<Rightarrow> [])\<rparr>,
         None))"
proof (intro conjI impI)
  assume "state (iter r) \<noteq> stateEOQ \<and> state (iter r) \<noteq> stateClosed"
  then show "Metadata r =
        (None, Some (KivikError 400
           ''Metadata must not be called until result set iteration is complete''))"
    by (simp add: Metadata_def)
next
  assume a: "ready r \<and> (e = EOF \<or> e = EOQ) \<and>
    driver_Next (Rows (feed (iter r))) (curVal (iter r)) = (Some e, slot, d)"
  then have dn: "driver_Next (Rows (feed (iter r))) (curVal (iter r)) = (Some e, slot, d)"
    by simp
  from a have rd: "state (iter r) \<noteq> stateClosed" "state (iter r) \<noteq> stateEOQ"
    "lasterr (iter r) = None"
    by (simp_all add: ready_def)
  from a consider "e = EOF" | "e = EOQ" by blast
  then show "Metadata (snd (rows_Next r)) =
        (Some \<lparr>Offset = rowsOffset d, TotalRows = rowsTotalRows d,
               UpdateSeq = rowsUpdateSeq d,
               Warning = (case rowsWarner d of Some w \<Rightarrow> w | None \<Rightarrow> []),
               Bookmark = (case rowsBookmarker d of Some b \<Rightarrow> b | None \<Rightarrow> [])\<rparr>,
         None)"
  proof cases
    case 1
    then show ?thesis
      using dn rd
      by (simp add: rows_Next_def iter_Next_def rowsIterator_ops_def rowsIterator_Next_def
                    Let_def iter_Close_def rowsIterator_Close_def driver_Close_def
                    Metadata_def)
  next
    case 2
    then show ?thesis
      using dn rd
      by (simp add: rows_Next_def iter_Next_def rowsIterator_ops_def rowsIterator_Next_def
                    Let_def Metadata_def)
  qed
qed

theorem Metadata_not_ready_or_reported_witness:
  "state (iter (newRows (driverOf [] None))) \<noteq> stateEOQ \<and>
   state (iter (newRows (driverOf [] None))) \<noteq> stateClosed \<and>
   Metadata (newRows (driverOf [] None)) =
     (None, Some (KivikError 400
        ''Metadata must not be called until result set iteration is complete'')) \<and>
   ready (newRows (driverOf [] None)) \<and>
   driver_Next (Rows (feed (iter (newRows (driverOf [] None)))))
     (curVal (iter (newRows (driverOf [] None)))) = (Some EOF, zeroRow, driverOf [] None) \<and>
   Metadata (snd (rows_Next (newRows (driverOf [] None)))) =
     (Some \<lparr>Offset = 0, TotalRows = 0, UpdateSeq = [], Warning = [], Bookmark = []\<rparr>, None)"
proof -
  let ?r = "newRows (driverOf [] None)"
  have s: "state (iter ?r) \<noteq> stateEOQ" "state (iter ?r) \<noteq> stateClosed"
    by (simp_all add: newRows_def newIterator_def)
  have dn: "driver_Next (Rows (feed (iter ?r))) (curVal (iter ?r)) =
            (Some EOF, zeroRow, driverOf [] None)"
    by (simp add: newRows_def newIterator_def driver_Next_def driverOf_def)
  note t = Metadata_not_ready_or_reported[of ?r EOF zeroRow "driverOf [] None"]
  have m1: "Metadata ?r =
     (None, Some (KivikError 400
        ''Metadata must not be called until result set iteration is complete''))"
    using t[THEN conjunct1] s by blast
  have m2: "Metadata (snd (rows_Next ?r)) =
     (Some \<lparr>Offset = 0, TotalRows = 0, UpdateSeq = [], Warning = [], Bookmark = []\<rparr>, None)"
    using t[THEN conjunct2] ready_newRows[of "driverOf [] None"] dn
    by (simp add: driverOf_def)
  show ?thesis
    by (intro conjI s m1 ready_newRows dn m2)
qed





text \<open>
  C9, as the code has it. An errored result set returns its error from every method,
  and false from Next and NextResultSet. A rows result set with a local error returns
  it from Err and from ScanValue, ScanDoc and ScanKey at once, with the destination and
  the result set, and so the feed, untouched. A rows result set whose iterator has
  recorded an error returns false from Next and NextResultSet, unchanged, and an error
  from Err.
\<close>

theorem errored_result_set_methods:
  "ResultSet_Next (ErrRS e) = (False, ErrRS e) \<and>
   ResultSet_NextResultSet (ErrRS e) = (False, ErrRS e) \<and>
   ResultSet_Err (ErrRS e) = e \<and>
   ResultSet_Close (ErrRS e) = (e, ErrRS e) \<and>
   ResultSet_Metadata (ErrRS e) = (None, e) \<and>
   ResultSet_ScanValue dec (ErrRS e) dest = (e, dest, ErrRS e) \<and>
   ResultSet_ScanDoc dec (ErrRS e) dest = (e, dest, ErrRS e) \<and>
   ResultSet_ScanKey dec (ErrRS e) dest = (e, dest, ErrRS e) \<and>
   (err r = Some le \<longrightarrow>
      rows_Err r = Some le \<and>
      ScanValue dec r dest = (Some le, dest, r) \<and>
      ScanDoc dec r dest = (Some le, dest, r) \<and>
      ScanKey dec r dest = (Some le, dest, r)) \<and>
   (lasterr (iter r) = Some se \<longrightarrow>
      rows_Next r = (False, r) \<and>
      NextResultSet r = (False, r) \<and>
      rows_Err r \<noteq> None \<and>
      (err r = None \<longrightarrow> rows_Err r = Some se))"
proof -
  have a: "err r = Some le \<longrightarrow>
      rows_Err r = Some le \<and>
      ScanValue dec r dest = (Some le, dest, r) \<and>
      ScanDoc dec r dest = (Some le, dest, r) \<and>
      ScanKey dec r dest = (Some le, dest, r)"
    by (simp add: rows_Err_def ScanValue_def ScanDoc_def ScanKey_def scanFrame_def)
  have b: "lasterr (iter r) = Some se \<longrightarrow>
      rows_Next r = (False, r) \<and>
      NextResultSet r = (False, r) \<and>
      rows_Err r \<noteq> None \<and>
      (err r = None \<longrightarrow> rows_Err r = Some se)"
    by (simp add: rows_Next_def iter_Next_def NextResultSet_def rows_Err_def iter_Err_def
             split: option.splits)
  show ?thesis
    using a b by simp
qed

lemma rows_Next_failed:
  "e \<noteq> EOF \<Longrightarrow> e \<noteq> EOQ \<Longrightarrow>
   rows_Next (newRows (driverOf [Failed e] None)) =
     (False,
      \<lparr>iter = \<lparr>feed = \<lparr>Rows = (driverOf [Failed e] None)\<lparr>pending := [], rowsCloseCalls := 1\<rparr>, Metadata_ptr = None\<rparr>,
               state = stateClosed, curVal = zeroRow, lasterr = Some e, onCloseCalls = 1\<rparr>,
       err = None\<rparr>)"
  by (simp add: rows_Next_def iter_Next_def rowsIterator_ops_def rowsIterator_Next_def
                driver_Next_def newRows_def newIterator_def driverOf_def iter_Close_def
                rowsIterator_Close_def driver_Close_def)

theorem errored_result_set_methods_witness:
  "err ((newRows (driverOf [] None))\<lparr>err := Some (ErrorString ''local'')\<rparr>) =
     Some (ErrorString ''local'') \<and>
   ScanValue lengthDecoder ((newRows (driverOf [] None))\<lparr>err := Some (ErrorString ''local'')\<rparr>) 5
     = (Some (ErrorString ''local''), 5,
        (newRows (driverOf [] None))\<lparr>err := Some (ErrorString ''local'')\<rparr>) \<and>
   lasterr (iter (snd (rows_Next (newRows (driverOf [Failed (ErrorString ''boom'')] None))))) =
     Some (ErrorString ''boom'') \<and>
   fst (rows_Next (snd (rows_Next (newRows (driverOf [Failed (ErrorString ''boom'')] None)))))
     = False \<and>
   rows_Err (snd (rows_Next (newRows (driverOf [Failed (ErrorString ''boom'')] None)))) =
     Some (ErrorString ''boom'')"
proof -
  let ?r1 = "(newRows (driverOf [] None))\<lparr>err := Some (ErrorString ''local'')\<rparr>"
  let ?r2 = "snd (rows_Next (newRows (driverOf [Failed (ErrorString ''boom'')] None)))"
  have h1: "err ?r1 = Some (ErrorString ''local'')" by simp
  have h2: "lasterr (iter ?r2) = Some (ErrorString ''boom'')"
    by (simp add: rows_Next_failed)
  have n2: "err ?r2 = None"
    by (simp add: rows_Next_failed)
  note t1 = errored_result_set_methods[of None lengthDecoder 5 ?r1 "ErrorString ''local''"
              "ErrorString ''boom''"]
  note t2 = errored_result_set_methods[of None lengthDecoder 5 ?r2 "ErrorString ''local''"
              "ErrorString ''boom''"]
  have a: "ScanValue lengthDecoder ?r1 5 = (Some (ErrorString ''local''), 5, ?r1)"
    using t1 h1 by blast
  have b: "fst (rows_Next ?r2) = False"
    using t2 h2 by simp
  have c: "rows_Err ?r2 = Some (ErrorString ''boom'')"
    using t2 h2 n2 by blast
  show ?thesis
    by (intro conjI h1 a h2 b c)
qed

text \<open>
  The claim as stated fails for a rows result set whose iterator has recorded an error:
  after the driver's fetch fails, Err returns the error, but Metadata returns no error
  (and no metadata), ScanValue returns nil, and Close returns nil.
\<close>

theorem rows_methods_after_error_counterexample:
  "rows_Err (snd (rows_Next (newRows (driverOf [Failed (ErrorString ''boom'')] None)))) =
     Some (ErrorString ''boom'') \<and>
   Metadata (snd (rows_Next (newRows (driverOf [Failed (ErrorString ''boom'')] None)))) =
     (None, None) \<and>
   fst (ScanValue lengthDecoder
     (snd (rows_Next (newRows (driverOf [Failed (ErrorString ''boom'')] None)))) 0) = None \<and>
   fst (rows_Close (snd (rows_Next (newRows (driverOf [Failed (ErrorString ''boom'')] None)))))
     = None"
  by (simp add: rows_Next_failed rows_Err_def iter_Err_def Metadata_def ScanValue_def
                scanFrame_def makeReady_def scanValueRow_def zeroRow_def rows_Close_def
                iter_Close_def)

end
